theory Spec2Isabelle
  imports Complex_Main
begin

section \<open>Landmarks and configuration\<close>

text \<open>
  A landmark is one tracked point of the hand. The coordinates are Python floats; they
  are modelled as reals, so the subtractions, the halving in the palm centre and the
  comparisons against the thresholds are exact. NaN and infinite coordinates are not
  represented.
\<close>

record landmark =
  lm_x :: real
  lm_y :: real
  lm_z :: real

type_synonym landmarks = "landmark list"

text \<open>The landmark indices set by \<^verbatim>\<open>GestureController.__init__\<close>.\<close>

definition WRIST :: nat where "WRIST = 0"
definition THUMB_CMC :: nat where "THUMB_CMC = 1"
definition THUMB_MCP :: nat where "THUMB_MCP = 2"
definition THUMB_IP :: nat where "THUMB_IP = 3"
definition THUMB_TIP :: nat where "THUMB_TIP = 4"
definition INDEX_MCP :: nat where "INDEX_MCP = 5"
definition INDEX_PIP :: nat where "INDEX_PIP = 6"
definition INDEX_DIP :: nat where "INDEX_DIP = 7"
definition INDEX_TIP :: nat where "INDEX_TIP = 8"
definition MIDDLE_MCP :: nat where "MIDDLE_MCP = 9"
definition MIDDLE_PIP :: nat where "MIDDLE_PIP = 10"
definition MIDDLE_DIP :: nat where "MIDDLE_DIP = 11"
definition MIDDLE_TIP :: nat where "MIDDLE_TIP = 12"
definition RING_MCP :: nat where "RING_MCP = 13"
definition RING_PIP :: nat where "RING_PIP = 14"
definition RING_DIP :: nat where "RING_DIP = 15"
definition RING_TIP :: nat where "RING_TIP = 16"
definition PINKY_MCP :: nat where "PINKY_MCP = 17"
definition PINKY_PIP :: nat where "PINKY_PIP = 18"
definition PINKY_DIP :: nat where "PINKY_DIP = 19"
definition PINKY_TIP :: nat where "PINKY_TIP = 20"

text \<open>\<^verbatim>\<open>config.GESTURE_COOLDOWN\<close> and \<^verbatim>\<open>config.GESTURE_ACTIONS\<close>.\<close>

definition GESTURE_COOLDOWN :: real where
  "GESTURE_COOLDOWN = 1.0"

definition GESTURE_ACTIONS :: "string \<rightharpoonup> string" where
  "GESTURE_ACTIONS = map_of
     [(''thumbs_up'', ''increase_font''),
      (''thumbs_down'', ''decrease_font''),
      (''open_palm'', ''toggle_tts''),
      (''fist'', ''stop_tts''),
      (''point_up'', ''next_page''),
      (''peace'', ''previous_page''),
      (''swipe_left'', ''next_page''),
      (''swipe_right'', ''previous_page'')]"

text \<open>
  Python truthiness of a value that is \<^verbatim>\<open>None\<close> or a string: \<^verbatim>\<open>None\<close> and the empty
  string are false.
\<close>

definition truthy :: "string option \<Rightarrow> bool" where
  "truthy g = (case g of None \<Rightarrow> False | Some s \<Rightarrow> s \<noteq> [])"

section \<open>Landmark geometry\<close>

text \<open>The dict returned by \<^verbatim>\<open>_get_finger_state\<close>: True is extended, False is curled.\<close>

record finger_state =
  index_extended :: bool
  middle_extended :: bool
  ring_extended :: bool
  pinky_extended :: bool

definition get_finger_state :: "landmarks \<Rightarrow> finger_state" where
  "get_finger_state landmarks =
     \<lparr> index_extended = lm_y (landmarks ! INDEX_TIP) < lm_y (landmarks ! INDEX_PIP),
       middle_extended = lm_y (landmarks ! MIDDLE_TIP) < lm_y (landmarks ! MIDDLE_PIP),
       ring_extended = lm_y (landmarks ! RING_TIP) < lm_y (landmarks ! RING_PIP),
       pinky_extended = lm_y (landmarks ! PINKY_TIP) < lm_y (landmarks ! PINKY_PIP) \<rparr>"

definition UP_THRESHOLD :: real where "UP_THRESHOLD = 0.15"
definition DOWN_THRESHOLD :: real where "DOWN_THRESHOLD = - 0.10"

text \<open>
  \<^verbatim>\<open>_get_thumb_direction\<close>. The two debug fields it stores on the controller are read
  only by the on-screen overlay and are left out.
\<close>

definition get_thumb_direction :: "landmarks \<Rightarrow> string" where
  "get_thumb_direction landmarks =
     (let thumb_tip = landmarks ! THUMB_TIP;
          wrist = landmarks ! WRIST;
          vertical_diff = lm_y wrist - lm_y thumb_tip;
          horizontal_diff = \<bar>lm_x thumb_tip - lm_x wrist\<bar>
      in if vertical_diff > UP_THRESHOLD then ''up''
         else if vertical_diff < DOWN_THRESHOLD then ''down''
         else if horizontal_diff > 0.12 then ''side''
         else ''curled'')"

definition all_curled :: "finger_state \<Rightarrow> bool" where
  "all_curled fingers =
     (\<not> index_extended fingers \<and> \<not> middle_extended fingers \<and>
      \<not> ring_extended fingers \<and> \<not> pinky_extended fingers)"

definition is_thumb_up :: "landmarks \<Rightarrow> finger_state \<Rightarrow> bool" where
  "is_thumb_up landmarks fingers =
     (let thumb_dir = get_thumb_direction landmarks
      in if thumb_dir \<noteq> ''up'' then False else all_curled fingers)"

definition is_thumb_down :: "landmarks \<Rightarrow> finger_state \<Rightarrow> bool" where
  "is_thumb_down landmarks fingers =
     (let thumb_dir = get_thumb_direction landmarks
      in if thumb_dir \<noteq> ''down'' then False else all_curled fingers)"

definition is_open_palm :: "landmarks \<Rightarrow> finger_state \<Rightarrow> bool" where
  "is_open_palm landmarks fingers =
     (let thumb_dir = get_thumb_direction landmarks;
          thumb_out = (thumb_dir \<in> set [''up'', ''side'']);
          all_extended = (index_extended fingers \<and> middle_extended fingers \<and>
                          ring_extended fingers \<and> pinky_extended fingers)
      in all_extended \<and> thumb_out)"

definition is_fist :: "landmarks \<Rightarrow> finger_state \<Rightarrow> bool" where
  "is_fist landmarks fingers =
     (if \<not> all_curled fingers then False
      else
        let thumb_tip = landmarks ! THUMB_TIP;
            index_mcp = landmarks ! INDEX_MCP;
            wrist = landmarks ! WRIST;
            palm_center_x = (lm_x index_mcp + lm_x wrist) / 2;
            palm_center_y = (lm_y index_mcp + lm_y wrist) / 2;
            thumb_to_palm_x = \<bar>lm_x thumb_tip - palm_center_x\<bar>;
            thumb_to_palm_y = \<bar>lm_y thumb_tip - palm_center_y\<bar>;
            thumb_tucked = (thumb_to_palm_x < 0.15 \<and> thumb_to_palm_y < 0.15);
            vertical_diff = \<bar>lm_y wrist - lm_y thumb_tip\<bar>;
            thumb_not_pointing = (vertical_diff < 0.12)
        in all_curled fingers \<and> (thumb_tucked \<or> thumb_not_pointing))"

definition is_peace_sign :: "landmarks \<Rightarrow> finger_state \<Rightarrow> bool" where
  "is_peace_sign landmarks fingers =
     (index_extended fingers \<and> middle_extended fingers \<and>
      \<not> ring_extended fingers \<and> \<not> pinky_extended fingers)"

definition is_pointing_up :: "landmarks \<Rightarrow> finger_state \<Rightarrow> bool" where
  "is_pointing_up landmarks fingers =
     (index_extended fingers \<and> \<not> middle_extended fingers \<and>
      \<not> ring_extended fingers \<and> \<not> pinky_extended fingers)"

section \<open>Gesture classifier\<close>

datatype error = IndexError

text \<open>
  \<^verbatim>\<open>detect_gesture\<close>. Its first step, \<^verbatim>\<open>_get_finger_state\<close>, reads index 20, so on a
  sequence of fewer than 21 landmarks Python raises IndexError before anything is
  returned; every other index read is below 21.
\<close>

definition detect_gesture :: "landmarks \<Rightarrow> error + string option" where
  "detect_gesture landmarks =
     (if length landmarks \<le> PINKY_TIP then Inl IndexError
      else
        let fingers = get_finger_state landmarks
        in if is_thumb_up landmarks fingers then Inr (Some ''thumbs_up'')
           else if is_thumb_down landmarks fingers then Inr (Some ''thumbs_down'')
           else if is_pointing_up landmarks fingers then Inr (Some ''point_up'')
           else if is_peace_sign landmarks fingers then Inr (Some ''peace'')
           else if is_open_palm landmarks fingers then Inr (Some ''open_palm'')
           else if is_fist landmarks fingers then Inr (Some ''fist'')
           else Inr None)"

section \<open>Controller state\<close>

text \<open>
  The fields of \<^verbatim>\<open>GestureController\<close> that the pipeline reads or writes.
  \<open>on_gesture_callback\<close> tells whether a callback was passed to the constructor; each
  invocation of it is appended to \<open>callback_log\<close> as the pair (gesture, action).
  \<open>gesture_history\<close> is the \<^verbatim>\<open>deque(maxlen=10)\<close>, oldest entry first.
\<close>

record controller =
  on_gesture_callback :: bool
  callback_log :: "(string \<times> string) list"
  last_gesture_time :: real
  cooldown :: real
  gesture_history :: "string option list"
  last_triggered_gesture :: "string option"

definition init_controller :: "bool \<Rightarrow> controller" where
  "init_controller cb =
     \<lparr> on_gesture_callback = cb,
       callback_log = [],
       last_gesture_time = 0,
       cooldown = GESTURE_COOLDOWN,
       gesture_history = [],
       last_triggered_gesture = None \<rparr>"

section \<open>Temporal stabilizer\<close>

text \<open>\<^verbatim>\<open>deque.append\<close> with \<^verbatim>\<open>maxlen=10\<close>: the oldest entries fall off the left end.\<close>

definition deque_append :: "'a list \<Rightarrow> 'a \<Rightarrow> 'a list" where
  "deque_append d v = (let d' = d @ [v] in drop (length d' - 10) d')"

text \<open>
  \<^verbatim>\<open>gesture_counts[g] = gesture_counts.get(g, 0) + 1\<close> on a dict kept as an association
  list in insertion order: an existing key keeps its place, a new key goes to the end.
\<close>

fun count_incr :: "string \<Rightarrow> (string \<times> nat) list \<Rightarrow> (string \<times> nat) list" where
  "count_incr g [] = [(g, 0 + 1)]"
| "count_incr g ((k, n) # kvs) =
     (if k = g then (k, n + 1) # kvs else (k, n) # count_incr g kvs)"

text \<open>The counting loop over the history.\<close>

fun count_gestures :: "string option list \<Rightarrow> (string \<times> nat) list \<Rightarrow> (string \<times> nat) list" where
  "count_gestures [] gesture_counts = gesture_counts"
| "count_gestures (g # gs) gesture_counts =
     count_gestures gs (if truthy g then count_incr (the g) gesture_counts else gesture_counts)"

text \<open>
  \<^verbatim>\<open>max(gesture_counts, key=gesture_counts.get)\<close> on a non-empty dict: the keys are
  visited in insertion order and a later key replaces the best one only when its count is
  strictly greater.
\<close>

fun max_from :: "string \<times> nat \<Rightarrow> (string \<times> nat) list \<Rightarrow> string \<times> nat" where
  "max_from best [] = best"
| "max_from best (kv # kvs) = max_from (if snd kv > snd best then kv else best) kvs"

text \<open>
  \<^verbatim>\<open>_get_stable_gesture\<close>, returning the result and the updated controller. For the
  buffer lengths 5 to 10 that reach the threshold test, the floating-point product
  \<^verbatim>\<open>len * 0.6\<close> is 3.0 and 6.0 at lengths 5 and 10 and lies strictly between two
  integers otherwise, so comparing the integer count against it agrees with the exact
  product used here.
\<close>

definition get_stable_gesture :: "string option \<Rightarrow> controller \<Rightarrow> string option \<times> controller" where
  "get_stable_gesture current_gesture c =
     (let c1 = c\<lparr>gesture_history := deque_append (gesture_history c) current_gesture\<rparr>
      in if length (gesture_history c1) < 5 then (None, c1)
         else
           case count_gestures (gesture_history c1) [] of
             [] \<Rightarrow> (None, c1)
           | kv # kvs \<Rightarrow>
               let (most_common, count) = max_from kv kvs
               in if real count \<ge> real (length (gesture_history c1)) * 0.6
                  then (Some most_common, c1)
                  else (None, c1))"

section \<open>Dispatch gate\<close>

text \<open>
  \<^verbatim>\<open>_trigger_gesture\<close>; \<open>current_time\<close> is the value \<^verbatim>\<open>time.time()\<close> returns in the call.
\<close>

definition trigger_gesture :: "real \<Rightarrow> string \<Rightarrow> controller \<Rightarrow> controller" where
  "trigger_gesture current_time gesture c =
     (if current_time - last_gesture_time c < cooldown c then c
      else if Some gesture = last_triggered_gesture c then c
      else
        let c1 = c\<lparr>last_triggered_gesture := Some gesture, last_gesture_time := current_time\<rparr>;
            action = GESTURE_ACTIONS gesture
        in if truthy action \<and> on_gesture_callback c1
           then c1\<lparr>callback_log := callback_log c1 @ [(gesture, the action)]\<rparr>
           else c1)"

section \<open>Frame processing\<close>

text \<open>
  What one call of \<^verbatim>\<open>process_frame\<close> gets from the camera and the hand tracker:
  no frame at all (camera absent, not running, or the read failed), a frame without a
  hand, or a frame with the landmarks of the one hand that the tracker is configured to
  report (\<^verbatim>\<open>max_num_hands=1\<close>).
\<close>

datatype capture = NotCaptured | NoHand | Hand landmarks

text \<open>
  \<^verbatim>\<open>process_frame\<close>, returning the stable gesture (the second component of the Python
  result) and the updated controller. Drawing on the frame is left out.
\<close>

definition process_frame :: "real \<Rightarrow> capture \<Rightarrow> controller \<Rightarrow> error + string option \<times> controller" where
  "process_frame current_time cap c =
     (case cap of
        NotCaptured \<Rightarrow> Inr (None, c)
      | Hand hand_landmarks \<Rightarrow>
          (case detect_gesture hand_landmarks of
             Inl e \<Rightarrow> Inl e
           | Inr detected_gesture \<Rightarrow>
               let (stable_gesture, c1) = get_stable_gesture detected_gesture c
               in if truthy stable_gesture
                  then Inr (stable_gesture, trigger_gesture current_time (the stable_gesture) c1)
                  else Inr (stable_gesture, c1))
      | NoHand \<Rightarrow>
          Inr (None, c\<lparr>gesture_history := [], last_triggered_gesture := None\<rparr>))"

text \<open>
  The polling loop \<^verbatim>\<open>while True: frame, gesture = controller.process_frame()\<close> over a
  finite sequence of clock readings and captures, collecting the stable gesture of each
  call. An exception ends the loop.
\<close>

fun run_frames :: "(real \<times> capture) list \<Rightarrow> controller \<Rightarrow> error + string option list \<times> controller" where
  "run_frames [] c = Inr ([], c)"
| "run_frames ((t, cap) # rest) c =
     (case process_frame t cap c of
        Inl e \<Rightarrow> Inl e
      | Inr (g, c1) \<Rightarrow>
          (case run_frames rest c1 of
             Inl e \<Rightarrow> Inl e
           | Inr (gs, c2) \<Rightarrow> Inr (g # gs, c2)))"

text \<open>Whether a capture is a frame with a hand in it.\<close>

fun hand_present :: "capture \<Rightarrow> bool" where
  "hand_present (Hand hand_landmarks) = True"
| "hand_present NoHand = False"
| "hand_present NotCaptured = False"

section \<open>Sample landmark sets\<close>

text \<open>
  Concrete hands of 21 landmarks, used to run the pipeline on explicit inputs. All
  points sit at (0.5, 0.5) except the one moved: every finger tip is then level with its
  PIP joint, which counts as curled.
\<close>

definition neutral_point :: landmark where
  "neutral_point = \<lparr>lm_x = 0.5, lm_y = 0.5, lm_z = 0\<rparr>"

text \<open>Thumb tip 0.20 above the wrist, four fingers curled.\<close>

definition thumbs_up_hand :: landmarks where
  "thumbs_up_hand = (replicate 21 neutral_point)[THUMB_TIP := \<lparr>lm_x = 0.5, lm_y = 0.3, lm_z = 0\<rparr>]"

text \<open>Thumb tip 0.20 below the wrist, four fingers curled.\<close>

definition thumbs_down_hand :: landmarks where
  "thumbs_down_hand = (replicate 21 neutral_point)[THUMB_TIP := \<lparr>lm_x = 0.5, lm_y = 0.7, lm_z = 0\<rparr>]"

text \<open>Everything at one point: four fingers curled, thumb on the palm centre.\<close>

definition fist_hand :: landmarks where
  "fist_hand = replicate 21 neutral_point"

text \<open>
  Four fingers curled, thumb tip 0.13 above the wrist and 0.2 to the side of the palm
  centre: not up, not down, not tucked.
\<close>

definition loose_thumb_hand :: landmarks where
  "loose_thumb_hand = (replicate 21 neutral_point)[THUMB_TIP := \<lparr>lm_x = 0.7, lm_y = 0.37, lm_z = 0\<rparr>]"

text \<open>Only the ring finger extended: no gesture of the vocabulary.\<close>

definition ring_only_hand :: landmarks where
  "ring_only_hand = (replicate 21 neutral_point)[RING_TIP := \<lparr>lm_x = 0.5, lm_y = 0.4, lm_z = 0\<rparr>]"

section \<open>Facts about the classifier\<close>

lemmas landmark_indices =
  WRIST_def THUMB_CMC_def THUMB_MCP_def THUMB_IP_def THUMB_TIP_def
  INDEX_MCP_def INDEX_PIP_def INDEX_DIP_def INDEX_TIP_def
  MIDDLE_MCP_def MIDDLE_PIP_def MIDDLE_DIP_def MIDDLE_TIP_def
  RING_MCP_def RING_PIP_def RING_DIP_def RING_TIP_def
  PINKY_MCP_def PINKY_PIP_def PINKY_DIP_def PINKY_TIP_def

lemmas classifier_defs =
  detect_gesture_def get_finger_state_def get_thumb_direction_def all_curled_def
  is_thumb_up_def is_thumb_down_def is_open_palm_def is_fist_def is_peace_sign_def
  is_pointing_up_def UP_THRESHOLD_def DOWN_THRESHOLD_def Let_def

lemmas sample_defs = neutral_point_def landmark_indices

lemma detect_thumbs_up_hand: "detect_gesture thumbs_up_hand = Inr (Some ''thumbs_up'')"
  by (simp add: classifier_defs thumbs_up_hand_def sample_defs)

lemma detect_thumbs_down_hand: "detect_gesture thumbs_down_hand = Inr (Some ''thumbs_down'')"
  by (simp add: classifier_defs thumbs_down_hand_def sample_defs)

lemma detect_fist_hand: "detect_gesture fist_hand = Inr (Some ''fist'')"
  by (simp add: classifier_defs fist_hand_def sample_defs)

lemma detect_loose_thumb_hand: "detect_gesture loose_thumb_hand = Inr None"
  by (simp add: classifier_defs loose_thumb_hand_def sample_defs)

lemma detect_ring_only_hand: "detect_gesture ring_only_hand = Inr None"
  by (simp add: classifier_defs ring_only_hand_def sample_defs)

section \<open>Facts about the stabilizer\<close>

lemma get_stable_gesture_snd:
  "snd (get_stable_gesture g c) = c\<lparr>gesture_history := deque_append (gesture_history c) g\<rparr>"
  by (simp add: get_stable_gesture_def Let_def split: list.split prod.split)

lemma count_incr_keys:
  "map fst (count_incr g kvs) = (if g \<in> set (map fst kvs) then map fst kvs else map fst kvs @ [g])"
  by (induction kvs) force+

lemma map_of_count_incr:
  "map_of (count_incr g kvs) =
     (map_of kvs)(g \<mapsto> (case map_of kvs g of None \<Rightarrow> 1 | Some n \<Rightarrow> n + 1))"
  by (induction kvs) (auto simp: fun_eq_iff)

lemma count_gestures_snoc:
  "count_gestures (h @ [g]) acc =
     (if truthy g then count_incr (the g) (count_gestures h acc) else count_gestures h acc)"
  by (induction h arbitrary: acc) simp_all

lemma count_gestures_distinct: "distinct (map fst (count_gestures h []))"
  by (induction h rule: rev_induct) (simp_all add: count_gestures_snoc count_incr_keys)

lemma map_of_count_gestures:
  "map_of (count_gestures h []) k =
     (if k \<noteq> [] \<and> Some k \<in> set h then Some (count_list h (Some k)) else None)"
proof (induction h rule: rev_induct)
  case Nil
  then show ?case by simp
next
  case (snoc g h)
  show ?case
  proof (cases "truthy g")
    case False
    then have "g \<noteq> Some k \<or> k = []" by (auto simp: truthy_def)
    with False snoc show ?thesis by (auto simp: count_gestures_snoc)
  next
    case True
    then obtain s where g: "g = Some s" and s: "s \<noteq> []"
      by (auto simp: truthy_def split: option.splits)
    show ?thesis
      using snoc s by (auto simp: g count_gestures_snoc truthy_def map_of_count_incr count_list_0_iff)
  qed
qed

lemma count_gestures_entry_iff:
  "(k, n) \<in> set (count_gestures h []) \<longleftrightarrow>
     k \<noteq> [] \<and> Some k \<in> set h \<and> n = count_list h (Some k)"
  using map_of_eq_Some_iff [OF count_gestures_distinct, of h k n]
  by (auto simp: map_of_count_gestures split: if_splits)

lemma max_from_split:
  "\<exists>A B. best # kvs = A @ max_from best kvs # B \<and>
         (\<forall>kv \<in> set A. snd kv < snd (max_from best kvs)) \<and>
         (\<forall>kv \<in> set B. snd kv \<le> snd (max_from best kvs))"
proof (induction kvs arbitrary: best)
  case Nil
  have "[best] = [] @ max_from best [] # []" by simp
  then show ?case by fastforce
next
  case (Cons kv kvs)
  show ?case
  proof (cases "snd kv > snd best")
    case True
    let ?m = "max_from kv kvs"
    from Cons [of kv] obtain A B where
      ab: "kv # kvs = A @ ?m # B" "\<forall>e \<in> set A. snd e < snd ?m" "\<forall>e \<in> set B. snd e \<le> snd ?m"
      by blast
    have m: "max_from best (kv # kvs) = ?m" using True by simp
    have "kv \<in> set (A @ ?m # B)" using ab(1) by (metis list.set_intros(1))
    then have "snd kv \<le> snd ?m" using ab(2,3) by (auto simp: less_imp_le)
    with True have lt: "snd best < snd ?m" by simp
    have 1: "best # kv # kvs = (best # A) @ ?m # B" using ab(1) by simp
    have 2: "\<forall>e \<in> set (best # A). snd e < snd ?m" using ab(2) lt by simp
    show ?thesis unfolding m using 1 2 ab(3) by blast
  next
    case False
    let ?m = "max_from best kvs"
    from Cons [of best] obtain A B where
      ab: "best # kvs = A @ ?m # B" "\<forall>e \<in> set A. snd e < snd ?m" "\<forall>e \<in> set B. snd e \<le> snd ?m"
      by blast
    have m: "max_from best (kv # kvs) = ?m" using False by simp
    have "best \<in> set (A @ ?m # B)" using ab(1) by (metis list.set_intros(1))
    then have "snd best \<le> snd ?m" using ab(2,3) by (auto simp: less_imp_le)
    with False have le: "snd kv \<le> snd ?m" by simp
    show ?thesis
    proof (cases A)
      case Nil
      with ab(1) have b: "best = ?m" "kvs = B" by auto
      have 1: "best # kv # kvs = [] @ ?m # (kv # B)" using b by simp
      have 2: "\<forall>e \<in> set (kv # B). snd e \<le> snd ?m" using ab(3) le by simp
      have 3: "\<forall>e \<in> set ([] :: (string \<times> nat) list). snd e < snd ?m" by simp
      show ?thesis unfolding m using 1 2 3 by blast
    next
      case (Cons a A')
      with ab(1) have b: "a = best" "kvs = A' @ ?m # B" by auto
      have 1: "best # kv # kvs = (best # kv # A') @ ?m # B" using b by simp
      have 2: "\<forall>e \<in> set (best # kv # A'). snd e < snd ?m"
        using ab(2) Cons b False by auto
      show ?thesis unfolding m using 1 2 ab(3) by blast
    qed
  qed
qed

lemma max_from_mem: "max_from best kvs \<in> set (best # kvs)"
  using max_from_split [of best kvs] by (metis in_set_conv_decomp)

lemma max_from_ge: "kv \<in> set (best # kvs) \<Longrightarrow> snd kv \<le> snd (max_from best kvs)"
  using max_from_split [of best kvs]
  by (metis Un_iff insert_iff less_imp_le list.set(2) order_refl set_append)


lemma count_list_two: "a \<noteq> b \<Longrightarrow> count_list h a + count_list h b \<le> length h"
  by (induction h) auto

lemma get_stable_gesture_Some_iff:
  "fst (get_stable_gesture g c) = Some L \<longleftrightarrow>
     5 \<le> length (deque_append (gesture_history c) g) \<and> L \<noteq> [] \<and>
     real (length (deque_append (gesture_history c) g)) * 0.6
       \<le> real (count_list (deque_append (gesture_history c) g) (Some L))"
proof -
  let ?h = "deque_append (gesture_history c) g"
  let ?kvs = "count_gestures ?h []"
  show ?thesis
  proof (cases "length ?h < 5")
    case True
    then show ?thesis by (simp add: get_stable_gesture_def Let_def)
  next
    case len: False
    show ?thesis
    proof (cases ?kvs)
      case Nil
      have "Some L \<notin> set ?h \<or> L = []"
        using count_gestures_entry_iff [of L "count_list ?h (Some L)" ?h] Nil by auto
      then have "count_list ?h (Some L) = 0 \<or> L = []" by auto
      moreover have "0 < real (length ?h) * 0.6" using len by (cases ?h) simp_all
      ultimately show ?thesis
        using len Nil by (auto simp: get_stable_gesture_def Let_def)
    next
      case (Cons kv rest)
      obtain m n where mn: "max_from kv rest = (m, n)" by (cases "max_from kv rest")
      have "(m, n) \<in> set ?kvs" using max_from_mem [of kv rest] mn Cons by simp
      then have m: "m \<noteq> []" "n = count_list ?h (Some m)"
        by (simp_all add: count_gestures_entry_iff)
      have res: "fst (get_stable_gesture g c) =
          (if real (length ?h) * 0.6 \<le> real n then Some m else None)"
        using len Cons mn by (simp add: get_stable_gesture_def Let_def)
      show ?thesis
      proof
        assume "fst (get_stable_gesture g c) = Some L"
        with res have "L = m" "real (length ?h) * 0.6 \<le> real n"
          by (auto split: if_splits)
        with m len show "5 \<le> length ?h \<and> L \<noteq> [] \<and>
            real (length ?h) * 0.6 \<le> real (count_list ?h (Some L))" by simp
      next
        assume a: "5 \<le> length ?h \<and> L \<noteq> [] \<and>
            real (length ?h) * 0.6 \<le> real (count_list ?h (Some L))"
        then have pos: "0 < count_list ?h (Some L)" by (cases "count_list ?h (Some L)") auto
        then have "Some L \<in> set ?h" by (metis count_list_0_iff less_numeral_extra(3))
        with a have "(L, count_list ?h (Some L)) \<in> set (kv # rest)"
          using count_gestures_entry_iff [of L "count_list ?h (Some L)" ?h] Cons by simp
        from max_from_ge [OF this] mn have ge: "count_list ?h (Some L) \<le> n" by simp
        have "m = L"
        proof (rule ccontr)
          assume "m \<noteq> L"
          then have "count_list ?h (Some m) + count_list ?h (Some L) \<le> length ?h"
            by (intro count_list_two) simp
          with ge m have "2 * count_list ?h (Some L) \<le> length ?h" by simp
          then have "2 * real (count_list ?h (Some L)) \<le> real (length ?h)"
            by (metis of_nat_le_iff of_nat_mult of_nat_numeral)
          with a show False by simp
        qed
        with res ge a show "fst (get_stable_gesture g c) = Some L" by simp
      qed
    qed
  qed
qed


lemma count_gestures_keys:
  "k \<in> set (map fst (count_gestures h [])) \<longleftrightarrow> k \<noteq> [] \<and> Some k \<in> set h"
proof
  assume "k \<in> set (map fst (count_gestures h []))"
  then obtain n where "(k, n) \<in> set (count_gestures h [])" by auto
  then show "k \<noteq> [] \<and> Some k \<in> set h" by (simp add: count_gestures_entry_iff)
next
  assume "k \<noteq> [] \<and> Some k \<in> set h"
  then have "(k, count_list h (Some k)) \<in> set (count_gestures h [])"
    by (simp add: count_gestures_entry_iff)
  then show "k \<in> set (map fst (count_gestures h []))" by force
qed

lemma takeWhile_snoc_found:
  "x \<in> set xs \<Longrightarrow> \<not> P x \<Longrightarrow> takeWhile P (xs @ ys) = takeWhile P xs"
  by (induction xs) auto

lemma count_gestures_key_order:
  "map fst (count_gestures h []) = A @ k1 # B \<Longrightarrow> k2 \<in> set B \<Longrightarrow>
   Some k2 \<notin> set (takeWhile (\<lambda>u. u \<noteq> Some k1) h)"
proof (induction h arbitrary: A B rule: rev_induct)
  case Nil
  then show ?case by simp
next
  case (snoc g h)
  let ?keys = "map fst (count_gestures h [])"
  let ?P = "\<lambda>u. u \<noteq> Some k1"
  have old: "Some k2 \<notin> set (takeWhile ?P (h @ [g]))"
    if "?keys = A' @ k1 # B'" "k2 \<in> set B'" for A' B'
  proof -
    have "k1 \<in> set ?keys" using that(1) by simp
    then have "Some k1 \<in> set h" by (simp only: count_gestures_keys)
    then have "takeWhile ?P (h @ [g]) = takeWhile ?P h"
      by (rule takeWhile_snoc_found) simp
    with snoc.IH [OF that] show ?thesis by simp
  qed
  show ?case
  proof (cases "truthy g \<and> the g \<notin> set ?keys")
    case False
    then have "map fst (count_gestures (h @ [g]) []) = ?keys"
      by (auto simp: count_gestures_snoc count_incr_keys)
    with snoc.prems show ?thesis using old by simp
  next
    case True
    then obtain s where g: "g = Some s" and s: "s \<noteq> []" "s \<notin> set ?keys"
      by (auto simp: truthy_def split: option.splits)
    have keys': "?keys @ [s] = A @ k1 # B"
      using snoc.prems(1) True g by (simp add: count_gestures_snoc count_incr_keys)
    from snoc.prems(2) have "B \<noteq> []" by auto
    then obtain B' b where B: "B = B' @ [b]" by (metis rev_exhaust)
    from keys' B have k: "?keys = A @ k1 # B'" and b: "b = s" by simp_all
    show ?thesis
    proof (cases "k2 \<in> set B'")
      case True
      with k show ?thesis by (rule old)
    next
      case False
      with snoc.prems(2) B b have k2: "k2 = s" by simp
      have "Some s \<notin> set h" using s count_gestures_keys [of s h] by blast
      moreover have "k1 \<in> set ?keys" using k by simp
      then have "Some k1 \<in> set h" by (simp only: count_gestures_keys)
      then have "takeWhile ?P (h @ [g]) = takeWhile ?P h"
        by (rule takeWhile_snoc_found) simp
      ultimately show ?thesis using set_takeWhileD [of "Some s" ?P h] k2 by auto
    qed
  qed
qed

lemma most_common_first_of_tied:
  assumes kvs: "count_gestures h [] = kv # kvs" and mn: "max_from kv kvs = (m, n)"
  shows "m \<noteq> [] \<and> n = count_list h (Some m) \<and>
         (\<forall>L. L \<noteq> [] \<longrightarrow> count_list h (Some L) \<le> n) \<and>
         (\<forall>L. L \<noteq> [] \<and> L \<noteq> m \<and> count_list h (Some L) = n \<longrightarrow>
              Some L \<notin> set (takeWhile (\<lambda>u. u \<noteq> Some m) h))"
proof -
  have mem: "(m, n) \<in> set (count_gestures h [])"
    using max_from_mem [of kv kvs] kvs mn by simp
  then have m: "m \<noteq> []" "Some m \<in> set h" "n = count_list h (Some m)"
    by (simp_all add: count_gestures_entry_iff)
  have pos: "0 < n" using m(2,3) by (metis count_list_0_iff gr0I)
  have le: "count_list h (Some L) \<le> n" if "L \<noteq> []" for L
  proof (cases "Some L \<in> set h")
    case True
    with that have "(L, count_list h (Some L)) \<in> set (count_gestures h [])"
      by (simp add: count_gestures_entry_iff)
    then have "(L, count_list h (Some L)) \<in> set (kv # kvs)" by (simp only: kvs)
    from max_from_ge [OF this] mn show ?thesis by simp
  next
    case False
    then show ?thesis by simp
  qed
  have first: "Some L \<notin> set (takeWhile (\<lambda>u. u \<noteq> Some m) h)"
    if L: "L \<noteq> []" "L \<noteq> m" "count_list h (Some L) = n" for L
  proof -
    from max_from_split [of kv kvs] mn obtain A B where
      ab: "kv # kvs = A @ (m, n) # B" "\<forall>e \<in> set A. snd e < n" by auto
    have "Some L \<in> set h" using L(3) pos by (metis count_list_0_iff less_numeral_extra(3))
    with L have "(L, n) \<in> set (count_gestures h [])"
      by (simp add: count_gestures_entry_iff)
    then have "(L, n) \<in> set (kv # kvs)" by (simp only: kvs)
    with ab L(2) have "(L, n) \<in> set B" by auto
    then have "L \<in> set (map fst B)" by force
    moreover have "map fst (count_gestures h []) = map fst A @ m # map fst B"
      using kvs ab(1) by simp
    ultimately show ?thesis using count_gestures_key_order by blast
  qed
  show ?thesis using m le first by blast
qed


lemma get_stable_gesture_history_only:
  "gesture_history c' = gesture_history c \<Longrightarrow>
   fst (get_stable_gesture g c') = fst (get_stable_gesture g c)"
  by (simp add: get_stable_gesture_def Let_def split: list.split prod.split)

section \<open>Facts about the dispatch gate\<close>

lemma GESTURE_ACTIONS_truthy: "GESTURE_ACTIONS g = Some a \<Longrightarrow> truthy (Some a)"
  by (auto simp: GESTURE_ACTIONS_def truthy_def split: if_splits)


lemma trigger_gesture_same:
  "last_triggered_gesture c = Some g \<Longrightarrow> trigger_gesture current_time g c = c"
  by (simp add: trigger_gesture_def)

lemma trigger_gesture_dispatch:
  "\<not> current_time - last_gesture_time c < cooldown c \<Longrightarrow> Some g \<noteq> last_triggered_gesture c \<Longrightarrow>
   trigger_gesture current_time g c =
     c\<lparr>last_triggered_gesture := Some g, last_gesture_time := current_time,
       callback_log := (if truthy (GESTURE_ACTIONS g) \<and> on_gesture_callback c
                        then callback_log c @ [(g, the (GESTURE_ACTIONS g))]
                        else callback_log c)\<rparr>"
  by (simp add: trigger_gesture_def Let_def)

section \<open>Facts about frame processing\<close>

lemma process_frame_Hand:
  "detect_gesture lm = Inr d \<Longrightarrow>
   process_frame t (Hand lm) c =
     (let (s, c1) = get_stable_gesture d c
      in if truthy s then Inr (s, trigger_gesture t (the s) c1) else Inr (s, c1))"
  by (simp add: process_frame_def)

lemmas sample_frames =
  process_frame_Hand [OF detect_thumbs_up_hand] process_frame_Hand [OF detect_thumbs_down_hand]
  process_frame_Hand [OF detect_fist_hand] process_frame_Hand [OF detect_ring_only_hand]
  process_frame_Hand [OF detect_loose_thumb_hand]

lemmas pipeline_eval =
  get_stable_gesture_def deque_append_def truthy_def trigger_gesture_def
  GESTURE_ACTIONS_def init_controller_def GESTURE_COOLDOWN_def Let_def

lemma detect_gesture_total: "length lm = 21 \<Longrightarrow> \<exists>d. detect_gesture lm = Inr d"
  by (simp add: detect_gesture_def PINKY_TIP_def Let_def)

lemma process_frame_cases:
  assumes "process_frame t cap c = Inr (g, c1)"
  shows "(cap = NotCaptured \<and> g = None \<and> c1 = c) \<or>
         (cap = NoHand \<and> g = None \<and>
            c1 = c\<lparr>gesture_history := [], last_triggered_gesture := None\<rparr>) \<or>
         (\<exists>lm d. cap = Hand lm \<and> detect_gesture lm = Inr d \<and>
            g = fst (get_stable_gesture d c) \<and>
            c1 = (if truthy g then trigger_gesture t (the g) (snd (get_stable_gesture d c))
                  else snd (get_stable_gesture d c)))"
  using assms
  by (cases cap)
     (auto simp: process_frame_def Let_def split: sum.splits prod.splits if_splits)

lemma process_frame_total:
  "(\<forall>lm. cap = Hand lm \<longrightarrow> length lm = 21) \<Longrightarrow> \<exists>g c1. process_frame t cap c = Inr (g, c1)"
proof (cases cap)
  case (Hand lm)
  assume "\<forall>lm. cap = Hand lm \<longrightarrow> length lm = 21"
  with Hand obtain d where "detect_gesture lm = Inr d"
    using detect_gesture_total by blast
  then show ?thesis
    by (simp add: Hand process_frame_Hand Let_def split: prod.splits)
qed (simp_all add: process_frame_def)

lemma run_frames_total:
  "(\<forall>t lm. (t, Hand lm) \<in> set ins \<longrightarrow> length lm = 21) \<Longrightarrow>
   \<exists>outs c2. run_frames ins c = Inr (outs, c2)"
proof (induction ins arbitrary: c)
  case Nil
  show ?case by simp
next
  case (Cons f ins)
  obtain t cap where f: "f = (t, cap)" by (cases f)
  have "\<forall>lm. cap = Hand lm \<longrightarrow> length lm = 21" using Cons.prems f by auto
  then obtain g c1 where 1: "process_frame t cap c = Inr (g, c1)"
    using process_frame_total by blast
  have "\<forall>t lm. (t, Hand lm) \<in> set ins \<longrightarrow> length lm = 21" using Cons.prems by auto
  from Cons.IH [OF this, of c1] obtain outs c2 where "run_frames ins c1 = Inr (outs, c2)"
    by blast
  with 1 show ?case by (simp add: f)
qed

lemma run_frames_Cons:
  assumes "run_frames ((t, cap) # ins) c = Inr (outs, c2)"
  obtains g c1 gs where "process_frame t cap c = Inr (g, c1)"
    and "run_frames ins c1 = Inr (gs, c2)" and "outs = g # gs"
  using assms by (auto split: sum.splits prod.splits)

text \<open>A frame whose stable gesture is none leaves the gate's fields alone, unless it is a hand loss.\<close>

lemma frame_none_keeps_gate:
  assumes "process_frame t cap c = Inr (None, c1)" and "cap \<noteq> NoHand"
  shows "callback_log c1 = callback_log c \<and> last_gesture_time c1 = last_gesture_time c \<and>
         last_triggered_gesture c1 = last_triggered_gesture c"
  using process_frame_cases [OF assms(1)] assms(2)
  by (auto simp: truthy_def get_stable_gesture_snd)


lemma length_deque_append: "length (deque_append d v) = min 10 (Suc (length d))"
  by (auto simp: deque_append_def Let_def)

lemma frame_cold:
  assumes "process_frame t cap c = Inr (g, c1)"
    and "hand_present cap \<longrightarrow> length (gesture_history c) < 4"
  shows "g = None \<and>
         length (gesture_history c1) \<le>
           length (gesture_history c) + (if hand_present cap then 1 else 0)"
proof (cases "hand_present cap")
  case True
  with assms(2) have len: "length (gesture_history c) < 4" by simp
  have "fst (get_stable_gesture d c) = None" for d
    using len by (simp add: get_stable_gesture_def Let_def length_deque_append)
  then show ?thesis
    using process_frame_cases [OF assms(1)] len True
    by (auto simp: truthy_def get_stable_gesture_snd length_deque_append)
next
  case False
  then show ?thesis
    using process_frame_cases [OF assms(1)] by auto
qed

lemma run_frames_cold:
  "length (gesture_history c) + length (filter (hand_present \<circ> snd) ins) < 5 \<Longrightarrow>
   run_frames ins c = Inr (outs, c2) \<Longrightarrow> \<forall>r \<in> set outs. r = None"
proof (induction ins arbitrary: c outs)
  case Nil
  then show ?case by simp
next
  case (Cons f ins)
  obtain t cap where f: "f = (t, cap)" by (cases f)
  from Cons.prems(2) [unfolded f] obtain g c1 gs where
    1: "process_frame t cap c = Inr (g, c1)" and 2: "run_frames ins c1 = Inr (gs, c2)"
    and 3: "outs = g # gs" by (rule run_frames_Cons)
  have "hand_present cap \<longrightarrow> length (gesture_history c) < 4"
    using Cons.prems(1) f by (auto simp: o_def split: if_splits)
  from frame_cold [OF 1 this] have g: "g = None"
    and l: "length (gesture_history c1) \<le>
        length (gesture_history c) + (if hand_present cap then 1 else 0)" by simp_all
  have "length (gesture_history c1) + length (filter (hand_present \<circ> snd) ins) < 5"
    using l Cons.prems(1) f by (auto simp: o_def split: if_splits)
  from Cons.IH [OF this 2] g 3 show ?case by simp
qed


lemma run_frames_none_keeps_gate:
  "\<forall>(t, cap) \<in> set ins. cap \<noteq> NoHand \<Longrightarrow> run_frames ins c = Inr (outs, c2) \<Longrightarrow>
   \<forall>r \<in> set outs. r = None \<Longrightarrow>
   callback_log c2 = callback_log c \<and> last_gesture_time c2 = last_gesture_time c \<and>
   last_triggered_gesture c2 = last_triggered_gesture c"
proof (induction ins arbitrary: c outs)
  case Nil
  then show ?case by simp
next
  case (Cons f ins)
  obtain t cap where f: "f = (t, cap)" by (cases f)
  from Cons.prems(2) [unfolded f] obtain g c1 gs where
    1: "process_frame t cap c = Inr (g, c1)" and 2: "run_frames ins c1 = Inr (gs, c2)"
    and 3: "outs = g # gs" by (rule run_frames_Cons)
  have g: "g = None" and gs: "\<forall>r \<in> set gs. r = None" using Cons.prems(3) 3 by simp_all
  have "cap \<noteq> NoHand" using Cons.prems(1) f by simp
  note k = frame_none_keeps_gate [OF 1 [unfolded g] this]
  have "\<forall>(t, cap) \<in> set ins. cap \<noteq> NoHand" using Cons.prems(1) by simp
  from Cons.IH [OF this 2 gs] k show ?case by simp
qed


section \<open>Cold start\<close>

text \<open>
  C6: whenever the history buffer holds fewer than 5 samples after the current raw label
  has been appended, the stabilizer returns none, whatever the labels are.
\<close>

theorem cold_start_returns_none:
  "length (gesture_history (snd (get_stable_gesture g c))) < 5 \<Longrightarrow>
   fst (get_stable_gesture g c) = None"
  by (simp add: get_stable_gesture_snd) (simp add: get_stable_gesture_def Let_def)

theorem cold_start_returns_none_witness:
  "length (gesture_history (snd (get_stable_gesture (Some ''peace'')
      ((init_controller True)\<lparr>gesture_history := [Some ''peace'', Some ''peace'', Some ''peace'']\<rparr>)))) < 5
   \<and> fst (get_stable_gesture (Some ''peace'')
      ((init_controller True)\<lparr>gesture_history := [Some ''peace'', Some ''peace'', Some ''peace'']\<rparr>)) = None"
proof -
  have h: "length (gesture_history (snd (get_stable_gesture (Some ''peace'')
      ((init_controller True)\<lparr>gesture_history := [Some ''peace'', Some ''peace'', Some ''peace'']\<rparr>)))) < 5"
    by (simp add: get_stable_gesture_snd deque_append_def)
  show ?thesis using h cold_start_returns_none [OF h] by simp
qed

section \<open>Majority threshold\<close>

text \<open>
  C2: with a buffer of length 10 (after the append) holding exactly 6 entries "peace" and
  4 entries none, the stabilizer returns "peace"; with a buffer of length 10 holding
  exactly 5 entries "peace" it returns none. In general a returned label is non-none, no
  label occurs more often in the buffer, and its count is at least 60% of the buffer's
  length, none entries included in the length; and from 5 samples on, a non-none label
  whose count reaches 60% of the length is the one returned.
\<close>

theorem majority_threshold:
  assumes "get_stable_gesture g c = (r, c1)"
  shows "(length (gesture_history c1) = 10 \<and>
          count_list (gesture_history c1) (Some ''peace'') = 6 \<and>
          count_list (gesture_history c1) None = 4 \<longrightarrow> r = Some ''peace'') \<and>
         (length (gesture_history c1) = 10 \<and>
          count_list (gesture_history c1) (Some ''peace'') = 5 \<longrightarrow> r = None) \<and>
         (\<forall>L. r = Some L \<longrightarrow>
            L \<noteq> [] \<and>
            (\<forall>L'. count_list (gesture_history c1) (Some L') \<le> count_list (gesture_history c1) (Some L)) \<and>
            real (length (gesture_history c1)) * 0.6 \<le> real (count_list (gesture_history c1) (Some L))) \<and>
         (\<forall>L. L \<noteq> [] \<and> 5 \<le> length (gesture_history c1) \<and>
            real (length (gesture_history c1)) * 0.6 \<le> real (count_list (gesture_history c1) (Some L))
            \<longrightarrow> r = Some L)"
proof -
  let ?h = "gesture_history c1"
  have h: "?h = deque_append (gesture_history c) g"
    using assms get_stable_gesture_snd [of g c] by simp
  have r: "r = fst (get_stable_gesture g c)" using assms by simp
  have iff: "r = Some L \<longleftrightarrow>
      5 \<le> length ?h \<and> L \<noteq> [] \<and> real (length ?h) * 0.6 \<le> real (count_list ?h (Some L))" for L
    unfolding r h by (rule get_stable_gesture_Some_iff)
  have six: "r = Some ''peace''"
    if "length ?h = 10" "count_list ?h (Some ''peace'') = 6"
    using that by (simp add: iff)
  have five: "r = None"
    if len: "length ?h = 10" and cnt: "count_list ?h (Some ''peace'') = 5"
  proof (cases r)
    case None
    then show ?thesis .
  next
    case (Some L)
    with iff [of L] len have big: "6 \<le> count_list ?h (Some L)" by simp
    with cnt have "Some L \<noteq> Some ''peace''" by auto
    from count_list_two [OF this, of ?h] len cnt big show ?thesis by simp
  qed
  have most: "count_list ?h (Some L') \<le> count_list ?h (Some L)" if "r = Some L" for L L'
  proof (cases "L' = L")
    case True
    then show ?thesis by simp
  next
    case False
    then have "count_list ?h (Some L') + count_list ?h (Some L) \<le> length ?h"
      by (intro count_list_two) simp
    then have "real (count_list ?h (Some L')) + real (count_list ?h (Some L)) \<le> real (length ?h)"
      by (metis of_nat_add of_nat_le_iff)
    moreover have "real (length ?h) * 0.6 \<le> real (count_list ?h (Some L))"
      using that iff by simp
    ultimately have "real (count_list ?h (Some L')) \<le> real (count_list ?h (Some L))"
      by simp
    then show ?thesis by simp
  qed
  show ?thesis using six five most iff by blast
qed

theorem majority_threshold_witness:
  "get_stable_gesture (Some ''peace'')
     ((init_controller True)\<lparr>gesture_history :=
        [None, Some ''peace'', Some ''peace'', None, Some ''peace'',
         None, Some ''peace'', Some ''peace'', None]\<rparr>)
   = (Some ''peace'',
      (init_controller True)\<lparr>gesture_history :=
        [None, Some ''peace'', Some ''peace'', None, Some ''peace'',
         None, Some ''peace'', Some ''peace'', None, Some ''peace'']\<rparr>)
   \<and> get_stable_gesture None
     ((init_controller True)\<lparr>gesture_history :=
        [None, Some ''peace'', Some ''peace'', None, Some ''peace'',
         None, Some ''peace'', Some ''peace'', None]\<rparr>)
   = (None,
      (init_controller True)\<lparr>gesture_history :=
        [None, Some ''peace'', Some ''peace'', None, Some ''peace'',
         None, Some ''peace'', Some ''peace'', None, None]\<rparr>)"
proof -
  let ?c = "(init_controller True)\<lparr>gesture_history :=
        [None, Some ''peace'', Some ''peace'', None, Some ''peace'',
         None, Some ''peace'', Some ''peace'', None]\<rparr>"
  obtain r1 c1 where 1: "get_stable_gesture (Some ''peace'') ?c = (r1, c1)"
    by (cases "get_stable_gesture (Some ''peace'') ?c")
  obtain r2 c2 where 2: "get_stable_gesture None ?c = (r2, c2)"
    by (cases "get_stable_gesture None ?c")
  have c1: "c1 = ?c\<lparr>gesture_history := deque_append (gesture_history ?c) (Some ''peace'')\<rparr>"
    using 1 get_stable_gesture_snd [of "Some ''peace''" ?c] by simp
  have c2: "c2 = ?c\<lparr>gesture_history := deque_append (gesture_history ?c) None\<rparr>"
    using 2 get_stable_gesture_snd [of None ?c] by simp
  have "r1 = Some ''peace''"
    using majority_threshold [OF 1] by (simp add: c1 deque_append_def)
  moreover have "r2 = None"
    using majority_threshold [OF 2] by (simp add: c2 deque_append_def)
  ultimately show ?thesis
    unfolding 1 2 by (simp add: c1 c2 deque_append_def)
qed

section \<open>Priority of the thumb gestures over the fist\<close>



section \<open>The fist test\<close>



section \<open>Cooldown\<close>



section \<open>Unmapped gestures\<close>

text \<open>
  C7: when a gesture passes the cooldown and the change test, then if it has no entry in
  the action mapping the gate invokes no callback but records the gesture as last
  dispatched and updates the timestamp; if it is mapped (and a callback is installed) the
  callback is invoked with (gesture, action), once: the log grows by that one entry, and
  offering the same gesture again at any time adds nothing.
\<close>

theorem unmapped_gesture_updates_state:
  assumes "\<not> current_time - last_gesture_time c < cooldown c"
    and "Some g \<noteq> last_triggered_gesture c"
  shows "(GESTURE_ACTIONS g = None \<longrightarrow>
            trigger_gesture current_time g c =
              c\<lparr>last_triggered_gesture := Some g, last_gesture_time := current_time\<rparr>) \<and>
         (\<forall>a. GESTURE_ACTIONS g = Some a \<and> on_gesture_callback c \<longrightarrow>
            trigger_gesture current_time g c =
              c\<lparr>last_triggered_gesture := Some g, last_gesture_time := current_time,
                callback_log := callback_log c @ [(g, a)]\<rparr>) \<and>
         (\<forall>t. callback_log (trigger_gesture t g (trigger_gesture current_time g c)) =
              callback_log (trigger_gesture current_time g c))"
proof -
  note d = trigger_gesture_dispatch [OF assms]
  have 1: "trigger_gesture current_time g c =
      c\<lparr>last_triggered_gesture := Some g, last_gesture_time := current_time\<rparr>"
    if "GESTURE_ACTIONS g = None"
    using d that by (simp add: truthy_def)
  have 2: "trigger_gesture current_time g c =
      c\<lparr>last_triggered_gesture := Some g, last_gesture_time := current_time,
        callback_log := callback_log c @ [(g, a)]\<rparr>"
    if "GESTURE_ACTIONS g = Some a" "on_gesture_callback c" for a
    using d that GESTURE_ACTIONS_truthy [of g a] by simp
  have 3: "trigger_gesture t g (trigger_gesture current_time g c) = trigger_gesture current_time g c" for t
    by (rule trigger_gesture_same) (simp add: d)
  show ?thesis using 1 2 3 by simp
qed

theorem unmapped_gesture_updates_state_witness:
  "trigger_gesture 100 ''wave'' (init_controller True)
     = (init_controller True)\<lparr>last_triggered_gesture := Some ''wave'', last_gesture_time := 100\<rparr>
   \<and> trigger_gesture 100 ''peace'' (init_controller True)
     = (init_controller True)\<lparr>last_triggered_gesture := Some ''peace'', last_gesture_time := 100,
         callback_log := [(''peace'', ''previous_page'')]\<rparr>"
proof -
  have 1: "trigger_gesture 100 ''wave'' (init_controller True)
     = (init_controller True)\<lparr>last_triggered_gesture := Some ''wave'', last_gesture_time := 100\<rparr>"
    using unmapped_gesture_updates_state [of 100 "init_controller True" "''wave''"]
    by (simp add: init_controller_def GESTURE_COOLDOWN_def GESTURE_ACTIONS_def)
  have 2: "trigger_gesture 100 ''peace'' (init_controller True)
     = (init_controller True)\<lparr>last_triggered_gesture := Some ''peace'', last_gesture_time := 100,
         callback_log := [(''peace'', ''previous_page'')]\<rparr>"
    using unmapped_gesture_updates_state [of 100 "init_controller True" "''peace''"]
    by (simp add: init_controller_def GESTURE_COOLDOWN_def GESTURE_ACTIONS_def)
  show ?thesis using 1 2 by simp
qed

section \<open>Re-dispatch after a stabilized none\<close>

text \<open>
  C1 says that after a dispatch of a label L, frames with the hand present whose
  stabilized label is none clear the last-dispatched memory, so that L is dispatched again
  when it restabilizes after the cooldown. The run below refutes it. A fist is dispatched
  at the fifth frame; thumbs_up stabilizes from frame 11 but stays inside the cooldown
  until frame 15, where it is dispatched; frames 16 to 21 have the hand present and
  stabilize to none; frame 22 stabilizes to thumbs_up again, 1.75 after its dispatch. The
  callback log still holds a single thumbs_up entry.
\<close>

theorem stabilized_none_keeps_last_dispatched_counterexample:
  "run_frames
    [(1000.05, Hand fist_hand), (1000.10, Hand fist_hand), (1000.15, Hand fist_hand),
     (1000.20, Hand fist_hand), (1000.25, Hand fist_hand),
     (1000.30, Hand thumbs_up_hand), (1000.35, Hand thumbs_up_hand), (1000.40, Hand thumbs_up_hand),
     (1000.45, Hand thumbs_up_hand), (1000.50, Hand thumbs_up_hand), (1000.55, Hand thumbs_up_hand),
     (1000.60, Hand ring_only_hand), (1000.65, Hand ring_only_hand), (1000.70, Hand ring_only_hand),
     (1001.25, Hand ring_only_hand),
     (1001.30, Hand ring_only_hand),
     (1001.35, Hand thumbs_up_hand), (1001.40, Hand thumbs_up_hand), (1001.45, Hand thumbs_up_hand),
     (1001.50, Hand thumbs_up_hand), (1001.55, Hand thumbs_up_hand),
     (1003, Hand thumbs_up_hand)]
    (init_controller True)
   = Inr ([None, None, None, None, Some ''fist'', Some ''fist'', Some ''fist'', Some ''fist'',
           None, None, Some ''thumbs_up'', Some ''thumbs_up'', Some ''thumbs_up'',
           Some ''thumbs_up'', Some ''thumbs_up'',
           None, None, None, None, None, None,
           Some ''thumbs_up''],
          \<lparr>on_gesture_callback = True,
           callback_log = [(''fist'', ''stop_tts''), (''thumbs_up'', ''increase_font'')],
           last_gesture_time = 1001.25, cooldown = 1,
           gesture_history =
             [None, None, None, None, Some ''thumbs_up'', Some ''thumbs_up'', Some ''thumbs_up'',
              Some ''thumbs_up'', Some ''thumbs_up'', Some ''thumbs_up''],
           last_triggered_gesture = Some ''thumbs_up''\<rparr>)"
  by (simp add: sample_frames pipeline_eval)


text \<open>
  C1 as amended: when L is the last dispatched label and the gate then sees any number
  of frames with the hand present whose stabilized label is none, followed by a frame
  whose stabilized label is L, no callback is invoked for that frame, whatever the time:
  the callback log, the last-dispatched label and the timestamp are what they were after
  the dispatch. A stabilized none does not clear the last-dispatched memory.
\<close>

theorem stabilized_none_keeps_last_dispatched:
  assumes "last_triggered_gesture c = Some L"
    and "\<forall>(t, cap) \<in> set ins. \<exists>lm. cap = Hand lm"
    and "run_frames ins c = Inr (outs, c1)"
    and "\<forall>r \<in> set outs. r = None"
    and "process_frame t (Hand lm) c1 = Inr (Some L, c2)"
  shows "callback_log c2 = callback_log c \<and> last_triggered_gesture c2 = Some L \<and>
         last_gesture_time c2 = last_gesture_time c"
proof -
  have "\<forall>(t, cap) \<in> set ins. cap \<noteq> NoHand" using assms(2) by auto
  from run_frames_none_keeps_gate [OF this assms(3,4)] assms(1)
  have k: "callback_log c1 = callback_log c" "last_gesture_time c1 = last_gesture_time c"
    "last_triggered_gesture c1 = Some L" by simp_all
  from process_frame_cases [OF assms(5)] have
    "\<exists>d. c2 = (if truthy (Some L)
                  then trigger_gesture t (the (Some L)) (snd (get_stable_gesture d c1))
                  else snd (get_stable_gesture d c1))" by blast
  then obtain d where
    "c2 = (if truthy (Some L)
           then trigger_gesture t (the (Some L)) (snd (get_stable_gesture d c1))
           else snd (get_stable_gesture d c1))" ..
  then have
    c2: "c2 = (if truthy (Some L) then trigger_gesture t L (snd (get_stable_gesture d c1))
              else snd (get_stable_gesture d c1))" by simp
  have "last_triggered_gesture (snd (get_stable_gesture d c1)) = Some L"
    using k by (simp add: get_stable_gesture_snd)
  then have "trigger_gesture t L (snd (get_stable_gesture d c1)) = snd (get_stable_gesture d c1)"
    by (rule trigger_gesture_same)
  then have "c2 = snd (get_stable_gesture d c1)" using c2 by simp
  then show ?thesis using k by (simp add: get_stable_gesture_snd)
qed

theorem stabilized_none_keeps_last_dispatched_witness:
  "run_frames
     [(1001.30, Hand ring_only_hand), (1001.35, Hand thumbs_up_hand),
      (1001.40, Hand thumbs_up_hand), (1001.45, Hand thumbs_up_hand),
      (1001.50, Hand thumbs_up_hand), (1001.55, Hand thumbs_up_hand)]
     \<lparr>on_gesture_callback = True,
      callback_log = [(''fist'', ''stop_tts''), (''thumbs_up'', ''increase_font'')],
      last_gesture_time = 1001.25, cooldown = 1,
      gesture_history =
        [Some ''thumbs_up'', Some ''thumbs_up'', Some ''thumbs_up'', Some ''thumbs_up'',
         Some ''thumbs_up'', Some ''thumbs_up'', None, None, None, None],
      last_triggered_gesture = Some ''thumbs_up''\<rparr>
   = Inr ([None, None, None, None, None, None],
      \<lparr>on_gesture_callback = True,
       callback_log = [(''fist'', ''stop_tts''), (''thumbs_up'', ''increase_font'')],
       last_gesture_time = 1001.25, cooldown = 1,
       gesture_history =
         [None, None, None, None, None, Some ''thumbs_up'', Some ''thumbs_up'',
          Some ''thumbs_up'', Some ''thumbs_up'', Some ''thumbs_up''],
       last_triggered_gesture = Some ''thumbs_up''\<rparr>)
   \<and> (\<exists>c2. process_frame 1003 (Hand thumbs_up_hand)
      \<lparr>on_gesture_callback = True,
       callback_log = [(''fist'', ''stop_tts''), (''thumbs_up'', ''increase_font'')],
       last_gesture_time = 1001.25, cooldown = 1,
       gesture_history =
         [None, None, None, None, None, Some ''thumbs_up'', Some ''thumbs_up'',
          Some ''thumbs_up'', Some ''thumbs_up'', Some ''thumbs_up''],
       last_triggered_gesture = Some ''thumbs_up''\<rparr> = Inr (Some ''thumbs_up'', c2)
      \<and> callback_log c2 = [(''fist'', ''stop_tts''), (''thumbs_up'', ''increase_font'')]
      \<and> last_triggered_gesture c2 = Some ''thumbs_up''
      \<and> last_gesture_time c2 = 1001.25)"
proof -
  let ?c = "\<lparr>on_gesture_callback = True,
      callback_log = [(''fist'', ''stop_tts''), (''thumbs_up'', ''increase_font'')],
      last_gesture_time = 1001.25, cooldown = 1,
      gesture_history =
        [Some ''thumbs_up'', Some ''thumbs_up'', Some ''thumbs_up'', Some ''thumbs_up'',
         Some ''thumbs_up'', Some ''thumbs_up'', None, None, None, None],
      last_triggered_gesture = Some ''thumbs_up''\<rparr>"
  let ?c1 = "\<lparr>on_gesture_callback = True,
       callback_log = [(''fist'', ''stop_tts''), (''thumbs_up'', ''increase_font'')],
       last_gesture_time = 1001.25, cooldown = 1,
       gesture_history =
         [None, None, None, None, None, Some ''thumbs_up'', Some ''thumbs_up'',
          Some ''thumbs_up'', Some ''thumbs_up'', Some ''thumbs_up''],
       last_triggered_gesture = Some ''thumbs_up''\<rparr>"
  let ?ins = "[(1001.30, Hand ring_only_hand), (1001.35, Hand thumbs_up_hand),
      (1001.40, Hand thumbs_up_hand), (1001.45, Hand thumbs_up_hand),
      (1001.50, Hand thumbs_up_hand), (1001.55, Hand thumbs_up_hand)]"
  have h1: "last_triggered_gesture ?c = Some ''thumbs_up''" by simp
  have h2: "\<forall>(t, cap) \<in> set ?ins. \<exists>lm. cap = Hand lm" by simp
  have h3: "run_frames ?ins ?c = Inr ([None, None, None, None, None, None], ?c1)"
    by (simp add: sample_frames pipeline_eval)
  have h4: "\<forall>r \<in> set [None, None, None, None, None, None :: string option]. r = None" by simp
  obtain c2 where h5: "process_frame 1003 (Hand thumbs_up_hand) ?c1 = Inr (Some ''thumbs_up'', c2)"
    by (simp add: sample_frames pipeline_eval)
  from stabilized_none_keeps_last_dispatched [OF h1 h2 h3 h4 h5]
  have "callback_log c2 = [(''fist'', ''stop_tts''), (''thumbs_up'', ''increase_font'')] \<and>
      last_triggered_gesture c2 = Some ''thumbs_up'' \<and> last_gesture_time c2 = 1001.25"
    by simp
  with h3 h5 show ?thesis by blast
qed

section \<open>Hand loss\<close>

text \<open>
  C5: a frame without a hand returns none, empties the history buffer (length 0) and
  resets the last-dispatched label to none; after it, any sequence of captures with fewer
  than 5 frames that have a hand in them (hands of 21 landmarks) runs to the end with
  every stabilized label none, so at least 5 fresh frames with the hand present are
  needed before a label can be returned again.
\<close>

theorem hand_loss_clears_history:
  assumes "process_frame t NoHand c = Inr (g, c1)"
  shows "g = None \<and> length (gesture_history c1) = 0 \<and> last_triggered_gesture c1 = None \<and>
         (\<forall>ins. length (filter (hand_present \<circ> snd) ins) < 5 \<and>
                (\<forall>t' lm. (t', Hand lm) \<in> set ins \<longrightarrow> length lm = 21) \<longrightarrow>
            (\<exists>outs c2. run_frames ins c1 = Inr (outs, c2) \<and> (\<forall>r \<in> set outs. r = None)))"
proof -
  from process_frame_cases [OF assms]
  have g: "g = None" and c1: "c1 = c\<lparr>gesture_history := [], last_triggered_gesture := None\<rparr>"
    by auto
  have "\<exists>outs c2. run_frames ins c1 = Inr (outs, c2) \<and> (\<forall>r \<in> set outs. r = None)"
    if len: "length (filter (hand_present \<circ> snd) ins) < 5"
      and wf: "\<forall>t' lm. (t', Hand lm) \<in> set ins \<longrightarrow> length lm = 21" for ins
  proof -
    from run_frames_total [OF wf, of c1] obtain outs c2 where
      r: "run_frames ins c1 = Inr (outs, c2)" by blast
    have "length (gesture_history c1) + length (filter (hand_present \<circ> snd) ins) < 5"
      using len by (simp add: c1)
    from run_frames_cold [OF this r] r show ?thesis by blast
  qed
  with g c1 show ?thesis by simp
qed

theorem hand_loss_clears_history_witness:
  "process_frame 1000.6 NoHand
     \<lparr>on_gesture_callback = True, callback_log = [(''thumbs_up'', ''increase_font'')],
      last_gesture_time = 1000.25, cooldown = 1,
      gesture_history = [Some ''thumbs_up'', Some ''thumbs_up'', Some ''thumbs_up'',
                         Some ''thumbs_up'', Some ''thumbs_up'', Some ''thumbs_up''],
      last_triggered_gesture = Some ''thumbs_up''\<rparr>
   = Inr (None,
     \<lparr>on_gesture_callback = True, callback_log = [(''thumbs_up'', ''increase_font'')],
      last_gesture_time = 1000.25, cooldown = 1,
      gesture_history = [], last_triggered_gesture = None\<rparr>)
   \<and> (\<exists>outs c2. run_frames
       [(1000.65, Hand thumbs_up_hand), (1000.70, Hand thumbs_up_hand),
        (1000.72, NotCaptured),
        (1000.75, Hand thumbs_up_hand), (1000.80, Hand thumbs_up_hand)]
       \<lparr>on_gesture_callback = True, callback_log = [(''thumbs_up'', ''increase_font'')],
        last_gesture_time = 1000.25, cooldown = 1,
        gesture_history = [], last_triggered_gesture = None\<rparr> = Inr (outs, c2)
       \<and> (\<forall>r \<in> set outs. r = None))"
proof -
  let ?c = "\<lparr>on_gesture_callback = True, callback_log = [(''thumbs_up'', ''increase_font'')],
      last_gesture_time = 1000.25, cooldown = 1,
      gesture_history = [Some ''thumbs_up'', Some ''thumbs_up'', Some ''thumbs_up'',
                         Some ''thumbs_up'', Some ''thumbs_up'', Some ''thumbs_up''],
      last_triggered_gesture = Some ''thumbs_up''\<rparr>"
  let ?c1 = "\<lparr>on_gesture_callback = True, callback_log = [(''thumbs_up'', ''increase_font'')],
      last_gesture_time = 1000.25, cooldown = 1,
      gesture_history = [], last_triggered_gesture = None\<rparr>"
  let ?ins = "[(1000.65, Hand thumbs_up_hand), (1000.70, Hand thumbs_up_hand),
        (1000.72, NotCaptured),
        (1000.75, Hand thumbs_up_hand), (1000.80 :: real, Hand thumbs_up_hand)]"
  have h: "process_frame 1000.6 NoHand ?c = Inr (None, ?c1)"
    by (simp add: process_frame_def)
  have wf: "length (filter (hand_present \<circ> snd) ?ins) < 5 \<and>
      (\<forall>t' lm. (t', Hand lm) \<in> set ?ins \<longrightarrow> length lm = 21)"
    by (auto simp: thumbs_up_hand_def)
  from hand_loss_clears_history [OF h] wf
  have "\<exists>outs c2. run_frames ?ins ?c1 = Inr (outs, c2) \<and> (\<forall>r \<in> set outs. r = None)"
    by blast
  with h show ?thesis by blast
qed



section \<open>Ties in the majority vote\<close>

text \<open>
  C9 says that when two or more non-none labels are tied for the highest count, the
  stabilizer returns the tied label that occurs first in the buffer. The buffer below
  holds "fist" and "peace" five times each, "fist" first; the stabilizer returns none.
\<close>

theorem tie_selects_earliest_returns_none_counterexample:
  "get_stable_gesture (Some ''peace'')
     ((init_controller True)\<lparr>gesture_history :=
        [Some ''fist'', Some ''peace'', Some ''fist'', Some ''peace'', Some ''fist'',
         Some ''peace'', Some ''fist'', Some ''peace'', Some ''fist'']\<rparr>)
   = (None,
      (init_controller True)\<lparr>gesture_history :=
        [Some ''fist'', Some ''peace'', Some ''fist'', Some ''peace'', Some ''fist'',
         Some ''peace'', Some ''fist'', Some ''peace'', Some ''fist'', Some ''peace'']\<rparr>)"
  by (simp add: pipeline_eval)

text \<open>
  C9 as amended: the stabilizer's result depends on the controller only through the
  buffer contents. The label picked as most common by the maximum over the counts has the
  highest count of all non-none labels, and every other non-none label with that same
  count occurs in the buffer only after the first occurrence of the picked label. But
  whenever two different non-none labels are tied for the highest count, the stabilizer
  returns none: a tied label holds at most half of the buffer, below the 60% threshold.
\<close>

theorem tie_selects_earliest_returns_none:
  assumes "get_stable_gesture g c = (r, c1)"
  shows "(\<forall>c'. gesture_history c' = gesture_history c \<longrightarrow> fst (get_stable_gesture g c') = r) \<and>
         (\<forall>kv kvs m n.
            count_gestures (gesture_history c1) [] = kv # kvs \<and> max_from kv kvs = (m, n) \<longrightarrow>
            m \<noteq> [] \<and> n = count_list (gesture_history c1) (Some m) \<and>
            (\<forall>L. L \<noteq> [] \<longrightarrow> count_list (gesture_history c1) (Some L) \<le> n) \<and>
            (\<forall>L. L \<noteq> [] \<and> L \<noteq> m \<and> count_list (gesture_history c1) (Some L) = n \<longrightarrow>
                 Some L \<notin> set (takeWhile (\<lambda>u. u \<noteq> Some m) (gesture_history c1)))) \<and>
         (\<forall>L1 L2.
            L1 \<noteq> [] \<and> L2 \<noteq> [] \<and> L1 \<noteq> L2 \<and>
            count_list (gesture_history c1) (Some L1) = count_list (gesture_history c1) (Some L2) \<and>
            (\<forall>L. L \<noteq> [] \<longrightarrow>
               count_list (gesture_history c1) (Some L) \<le> count_list (gesture_history c1) (Some L1))
            \<longrightarrow> r = None)"
proof -
  let ?h = "gesture_history c1"
  have h: "?h = deque_append (gesture_history c) g"
    using assms get_stable_gesture_snd [of g c] by simp
  have r: "r = fst (get_stable_gesture g c)" using assms by simp
  have det: "fst (get_stable_gesture g c') = r" if "gesture_history c' = gesture_history c" for c'
    unfolding r using that by (rule get_stable_gesture_history_only)
  have tie: "r = None"
    if L: "L1 \<noteq> L2" "count_list ?h (Some L1) = count_list ?h (Some L2)"
      "\<forall>L. L \<noteq> [] \<longrightarrow> count_list ?h (Some L) \<le> count_list ?h (Some L1)" for L1 L2
  proof (cases r)
    case None
    then show ?thesis .
  next
    case (Some L)
    then have big: "5 \<le> length ?h" "L \<noteq> []"
      "real (length ?h) * 0.6 \<le> real (count_list ?h (Some L))"
      using get_stable_gesture_Some_iff [of g c L] by (simp_all add: r h)
    have "count_list ?h (Some L1) + count_list ?h (Some L2) \<le> length ?h"
      using L(1) by (intro count_list_two) simp
    with L(2) have "2 * count_list ?h (Some L1) \<le> length ?h" by simp
    moreover have "count_list ?h (Some L) \<le> count_list ?h (Some L1)" using L(3) big(2) by simp
    ultimately have "2 * count_list ?h (Some L) \<le> length ?h" by simp
    then have "2 * real (count_list ?h (Some L)) \<le> real (length ?h)"
      by (metis of_nat_le_iff of_nat_mult of_nat_numeral)
    with big(1,3) show ?thesis by simp
  qed
  show ?thesis using det tie most_common_first_of_tied [of ?h] by blast
qed

theorem tie_selects_earliest_returns_none_witness:
  "get_stable_gesture (Some ''peace'')
     ((init_controller True)\<lparr>gesture_history :=
        [Some ''fist'', Some ''peace'', Some ''fist'', Some ''peace'', Some ''fist'',
         Some ''peace'', Some ''fist'', Some ''peace'', Some ''fist'']\<rparr>)
   = (None,
      (init_controller True)\<lparr>gesture_history :=
        [Some ''fist'', Some ''peace'', Some ''fist'', Some ''peace'', Some ''fist'',
         Some ''peace'', Some ''fist'', Some ''peace'', Some ''fist'', Some ''peace'']\<rparr>)
   \<and> count_gestures
        [Some ''fist'', Some ''peace'', Some ''fist'', Some ''peace'', Some ''fist'',
         Some ''peace'', Some ''fist'', Some ''peace'', Some ''fist'', Some ''peace''] []
       = [(''fist'', 5), (''peace'', 5)]
   \<and> max_from (''fist'', 5) [(''peace'', 5)] = (''fist'', 5)
   \<and> Some ''peace'' \<notin> set (takeWhile (\<lambda>u. u \<noteq> Some ''fist'')
        [Some ''fist'', Some ''peace'', Some ''fist'', Some ''peace'', Some ''fist'',
         Some ''peace'', Some ''fist'', Some ''peace'', Some ''fist'', Some ''peace''])"
proof -
  let ?c = "(init_controller True)\<lparr>gesture_history :=
        [Some ''fist'', Some ''peace'', Some ''fist'', Some ''peace'', Some ''fist'',
         Some ''peace'', Some ''fist'', Some ''peace'', Some ''fist'']\<rparr>"
  let ?h = "[Some ''fist'', Some ''peace'', Some ''fist'', Some ''peace'', Some ''fist'',
         Some ''peace'', Some ''fist'', Some ''peace'', Some ''fist'', Some ''peace'']"
  obtain r c1 where rc: "get_stable_gesture (Some ''peace'') ?c = (r, c1)"
    by (cases "get_stable_gesture (Some ''peace'') ?c")
  have c1: "c1 = (init_controller True)\<lparr>gesture_history := ?h\<rparr>"
    using rc get_stable_gesture_snd [of "Some ''peace''" ?c] by (simp add: deque_append_def)
  have h: "gesture_history c1 = ?h" by (simp add: c1)
  note t = tie_selects_earliest_returns_none [OF rc, unfolded h]
  have cg: "count_gestures ?h [] = [(''fist'', 5), (''peace'', 5)]"
    by (simp add: truthy_def)
  have mf: "max_from (''fist'', 5) [(''peace'', 5)] = (''fist'', 5 :: nat)" by simp
  have tied: "''fist'' \<noteq> [] \<and> ''peace'' \<noteq> [] \<and> ''fist'' \<noteq> ''peace'' \<and>
      count_list ?h (Some ''fist'') = count_list ?h (Some ''peace'') \<and>
      (\<forall>L. L \<noteq> [] \<longrightarrow> count_list ?h (Some L) \<le> count_list ?h (Some ''fist''))"
    by simp
  from t tied have r: "r = None" by blast
  have sel: "''peace'' \<noteq> [] \<and> ''peace'' \<noteq> ''fist'' \<and> count_list ?h (Some ''peace'') = 5"
    by simp
  from t cg mf sel have "Some ''peace'' \<notin> set (takeWhile (\<lambda>u. u \<noteq> Some ''fist'') ?h)"
    by blast
  with rc r c1 cg mf show ?thesis by simp
qed

end
